theory Spec2Isabelle
  imports Complex_Main "HOL-Library.Word"
begin

section \<open>Numbers and vectors\<close>

text \<open>
  The C++ type \<^verbatim>\<open>float\<close> is kept abstract: it is a type variable \<open>'f\<close> that only has
  to offer the operations the code applies to it (\<open>0\<close>, \<open>1\<close>, \<open>+\<close>, \<open>-\<close>, \<open>*\<close>, \<open>/\<close> and,
  for the keys of the distance map, a linear order). No law of arithmetic is assumed of
  these operations, so every statement below also holds of rounding arithmetic. The linear
  order leaves out NaN keys, for which the comparison of \<^verbatim>\<open>std::map\<close> is no ordering.
\<close>

definition half :: "'f::{one,plus,inverse}" where
  \<comment> \<open>the literal \<^verbatim>\<open>0.5f\<close>\<close>
  "half = 1 / (1 + 1)"

datatype 'f vec2 = Vec2 (x2: 'f) (y2: 'f)

datatype 'f vec3 = Vec3 (x3: 'f) (y3: 'f) (z3: 'f)

datatype 'f vec4 = Vec4 (x4: 'f) (y4: 'f) (z4: 'f) (w4: 'f)

fun add2 :: "'f::plus vec2 \<Rightarrow> 'f vec2 \<Rightarrow> 'f vec2" where
  \<comment> \<open>\<^verbatim>\<open>a + b\<close> on \<^verbatim>\<open>glm::vec2\<close>\<close>
  "add2 (Vec2 ax ay) (Vec2 bx by) = Vec2 (ax + bx) (ay + by)"

fun scale2 :: "'f::times \<Rightarrow> 'f vec2 \<Rightarrow> 'f vec2" where
  \<comment> \<open>\<^verbatim>\<open>s * v\<close> on \<^verbatim>\<open>glm::vec2\<close>\<close>
  "scale2 s (Vec2 vx vy) = Vec2 (s * vx) (s * vy)"

section \<open>The fractal mesh generator\<close>

text \<open>
  Modelled from the spec: the declaration of \<^verbatim>\<open>LveModel::Vertex\<close> is in a header that is
  not among the sources; the spec gives it a position and a 3-channel color, and
  \<^verbatim>\<open>sierpinski\<close> initialises it with a \<^verbatim>\<open>glm::vec2\<close> and three floats.
\<close>

record 'f Vertex =
  position :: "'f vec2"
  color :: "'f vec3"

definition push_back :: "'a list \<Rightarrow> 'a \<Rightarrow> 'a list" where
  \<comment> \<open>\<^verbatim>\<open>std::vector::push_back\<close>\<close>
  "push_back xs v = xs @ [v]"

text \<open>
  \<^verbatim>\<open>LveAppBase::sierpinski\<close>. The vector passed by reference is threaded through the
  three recursive calls and returned (the parameter \<^verbatim>\<open>top\<close> is written \<open>top'\<close>, since
  \<open>top\<close> is a constant of HOL). The depth is an \<^verbatim>\<open>int\<close>; \<open>depth - 1\<close> is only
  computed where \<open>0 < depth\<close>, where it cannot wrap around (lemma \<open>depth_decrement_no_wrap\<close>
  below), so the depth is modelled as a mathematical integer.
\<close>

function sierpinski ::
  "'f::{zero,one,plus,times,inverse} Vertex list \<Rightarrow> int \<Rightarrow> 'f vec2 \<Rightarrow> 'f vec2 \<Rightarrow> 'f vec2
     \<Rightarrow> 'f Vertex list" where
  "sierpinski vertices depth left right top' =
     (if depth \<le> 0 then
        let vertices = push_back vertices \<lparr>position = top', color = Vec3 1 0 0\<rparr>;
            vertices = push_back vertices \<lparr>position = right, color = Vec3 0 1 0\<rparr>;
            vertices = push_back vertices \<lparr>position = left, color = Vec3 0 0 1\<rparr>
        in vertices
      else
        let leftTop = scale2 half (add2 left top');
            rightTop = scale2 half (add2 right top');
            leftRight = scale2 half (add2 left right);
            vertices = sierpinski vertices (depth - 1) left leftRight leftTop;
            vertices = sierpinski vertices (depth - 1) leftRight right rightTop;
            vertices = sierpinski vertices (depth - 1) leftTop rightTop top'
        in vertices)"
  by pat_completeness auto
termination
  by (relation "measure (\<lambda>(vertices, depth, left, right, top'). nat depth)") auto

definition generate ::
  "int \<Rightarrow> 'f::{zero,one,plus,times,inverse} vec2 \<Rightarrow> 'f vec2 \<Rightarrow> 'f vec2 \<Rightarrow> 'f Vertex list" where
  \<comment> \<open>the generator run on an empty vector, as \<^verbatim>\<open>loadModels\<close> runs it\<close>
  "generate depth left right top' = sierpinski [] depth left right top'"

definition midpoint2 :: "'f::{one,plus,times,inverse} vec2 \<Rightarrow> 'f vec2 \<Rightarrow> 'f vec2" where
  \<comment> \<open>the midpoint as the claim words it: \<open>0.5 * (a + b)\<close>\<close>
  "midpoint2 a b = scale2 half (add2 a b)"

section \<open>Vectors and matrices of the compositor\<close>

fun sub3 :: "'f::minus vec3 \<Rightarrow> 'f vec3 \<Rightarrow> 'f vec3" where
  \<comment> \<open>\<^verbatim>\<open>a - b\<close> on \<^verbatim>\<open>glm::vec3\<close>\<close>
  "sub3 (Vec3 ax ay az) (Vec3 bx by bz) = Vec3 (ax - bx) (ay - by) (az - bz)"

fun dot3 :: "'f::{plus,times} vec3 \<Rightarrow> 'f vec3 \<Rightarrow> 'f" where
  \<comment> \<open>\<^verbatim>\<open>glm::dot\<close>: the componentwise products, summed from the left\<close>
  "dot3 (Vec3 ax ay az) (Vec3 bx by bz) = ax * bx + ay * by + az * bz"

fun vec4_of :: "'f vec3 \<Rightarrow> 'f \<Rightarrow> 'f vec4" where
  \<comment> \<open>the constructor \<^verbatim>\<open>glm::vec4(v, w)\<close>\<close>
  "vec4_of (Vec3 vx vy vz) vw = Vec4 vx vy vz vw"

fun vec3_of :: "'f vec4 \<Rightarrow> 'f vec3" where
  \<comment> \<open>the constructor \<^verbatim>\<open>glm::vec3(v)\<close> of a \<^verbatim>\<open>vec4\<close>: \<open>w\<close> is dropped\<close>
  "vec3_of (Vec4 vx vy vz vw) = Vec3 vx vy vz"

fun add4 :: "'f::plus vec4 \<Rightarrow> 'f vec4 \<Rightarrow> 'f vec4" where
  "add4 (Vec4 ax ay az aw) (Vec4 bx by bz bw) = Vec4 (ax + bx) (ay + by) (az + bz) (aw + bw)"

fun scale4 :: "'f::times vec4 \<Rightarrow> 'f \<Rightarrow> 'f vec4" where
  \<comment> \<open>a column times a scalar\<close>
  "scale4 (Vec4 vx vy vz vw) s = Vec4 (vx * s) (vy * s) (vz * s) (vw * s)"

datatype 'f mat4 = Mat4 (col0: "'f vec4") (col1: "'f vec4") (col2: "'f vec4") (col3: "'f vec4")

definition mat4_diag :: "'f::zero \<Rightarrow> 'f mat4" where
  \<comment> \<open>the constructor \<^verbatim>\<open>glm::mat4(s)\<close>: \<open>s\<close> on the diagonal\<close>
  "mat4_diag s = Mat4 (Vec4 s 0 0 0) (Vec4 0 s 0 0) (Vec4 0 0 s 0) (Vec4 0 0 0 s)"

fun mat4_mul_vec4 :: "'f::{plus,times} mat4 \<Rightarrow> 'f vec4 \<Rightarrow> 'f vec4" where
  \<comment> \<open>\<^verbatim>\<open>m * v\<close>: the columns of \<open>m\<close> weighted by the components of \<open>v\<close>\<close>
  "mat4_mul_vec4 (Mat4 m0 m1 m2 m3) (Vec4 vx vy vz vw) =
     add4 (add4 (scale4 m0 vx) (scale4 m1 vy)) (add4 (scale4 m2 vz) (scale4 m3 vw))"

section \<open>Game objects, the uniform buffer and the frame\<close>

text \<open>
  Modelled from the spec: the headers that declare \<^verbatim>\<open>TransformComponent\<close>,
  \<^verbatim>\<open>PointLightComponent\<close>, \<^verbatim>\<open>LveGameObject\<close> and the camera are not among the
  sources. The records below have the members that \<^verbatim>\<open>unit_system.cpp\<close> reads and writes,
  with the types the spec gives them: a point-light object has an id, a translation, a
  3-channel color, an intensity and a scale whose \<open>x\<close> is its radius; an object whose
  \<^verbatim>\<open>pointLight\<close> pointer is null is no light. The member \<^verbatim>\<open>color\<close> of the game
  object is \<open>obj_color\<close> here, and \<^verbatim>\<open>getId()\<close> is the field \<open>getId\<close>.
\<close>

record 'f TransformComponent =
  translation :: "'f vec3"
  scale :: "'f vec3"

record 'f PointLightComponent =
  lightIntensity :: 'f

record 'f LveGameObject =
  getId :: nat
  transform :: "'f TransformComponent"
  obj_color :: "'f vec3"
  pointLight :: "'f PointLightComponent option"

record 'f LveCamera =
  getPosition :: "'f vec3"

definition MAX_LIGHTS :: int where
  "MAX_LIGHTS = 100"

text \<open>
  \<^verbatim>\<open>PointLight\<close> and \<^verbatim>\<open>GlobalUbo\<close>; the members \<^verbatim>\<open>position\<close> and \<^verbatim>\<open>color\<close> of the
  first are \<open>pl_position\<close> and \<open>pl_color\<close>. The array \<^verbatim>\<open>pointLights[MAX_LIGHTS]\<close> is a
  list, of length \<open>MAX_LIGHTS\<close> in every well-formed buffer (\<open>wf_ubo\<close>).
\<close>

record 'f PointLight =
  pl_position :: "'f vec4"
  pl_color :: "'f vec4"

record 'f GlobalUbo =
  projection :: "'f mat4"
  view :: "'f mat4"
  inverseView :: "'f mat4"
  ambientLightColor :: "'f vec4"
  pointLights :: "'f PointLight list"
  numLights :: int

definition wf_ubo :: "'f GlobalUbo \<Rightarrow> bool" where
  "wf_ubo ubo = (int (length (pointLights ubo)) = MAX_LIGHTS)"

text \<open>
  \<^verbatim>\<open>UnitPushConstants\<close> (members \<open>push_position\<close>, \<open>push_color\<close>, \<open>radius\<close>), and the
  commands that the render pass records into the command buffer of the frame. The buffer
  is a handle in the source; here it is the list of the commands recorded into it so far.
  \<^verbatim>\<open>lvePipeline->bind\<close>, whose code is not among the sources, is the one command
  \<open>BindPipeline\<close>; \<open>BindDescriptorSets\<close> carries the descriptor set, \<open>PushConstants\<close> the
  pushed block, and \<open>Draw\<close> the four numbers of \<^verbatim>\<open>vkCmdDraw\<close>.
\<close>

record 'f UnitPushConstants =
  push_position :: "'f vec4"
  push_color :: "'f vec4"
  radius :: 'f

datatype 'f command =
    BindPipeline
  | BindDescriptorSets nat
  | PushConstants "'f UnitPushConstants"
  | Draw nat nat nat nat

text \<open>
  \<^verbatim>\<open>FrameInfo\<close>. The game objects are an unordered map from ids to objects; it is the
  list of its entries in the order in which the \<^verbatim>\<open>for\<close> loops visit them. In a
  well-formed map no key occurs twice, and every object is stored under its own id
  (\<open>wf_objects\<close>).
\<close>

record 'f FrameInfo =
  frameIndex :: int
  frameTime :: 'f
  commandBuffer :: "'f command list"
  camera :: "'f LveCamera"
  globalDescriptorSet :: nat
  gameObjects :: "(nat \<times> 'f LveGameObject) list"

definition wf_objects :: "(nat \<times> 'f LveGameObject) list \<Rightarrow> bool" where
  "wf_objects objs = (distinct (map fst objs) \<and> list_all (\<lambda>kv. getId (snd kv) = fst kv) objs)"

datatype error = AssertionFailed | OutOfRange | NullPointer

section \<open>The update pass\<close>

text \<open>
  \<^verbatim>\<open>UnitSystem::update\<close>. \<^verbatim>\<open>glm::rotate\<close> is a parameter (\<open>glm_rotate\<close>). The
  \<^verbatim>\<open>assert\<close> is modelled as checked: a failed assertion ends the pass with
  \<open>AssertionFailed\<close>. The loop returns the entries with the lights moved, the light
  index and the buffer.
\<close>

fun update_loop ::
  "'f::{one,plus,times} mat4 \<Rightarrow> (nat \<times> 'f LveGameObject) list \<Rightarrow> int \<Rightarrow> 'f GlobalUbo
     \<Rightarrow> error + ((nat \<times> 'f LveGameObject) list \<times> int \<times> 'f GlobalUbo)" where
  "update_loop rotateLight [] lightIndex ubo = Inr ([], lightIndex, ubo)"
| "update_loop rotateLight (kv # rest) lightIndex ubo =
     (let obj = snd kv in
      case pointLight obj of
        None \<Rightarrow>
          (case update_loop rotateLight rest lightIndex ubo of
             Inl e \<Rightarrow> Inl e
           | Inr (rest', r) \<Rightarrow> Inr (kv # rest', r))
      | Some light \<Rightarrow>
          if \<not> lightIndex < MAX_LIGHTS then Inl AssertionFailed
          else
            let obj = obj\<lparr>transform := (transform obj)\<lparr>translation :=
                        vec3_of (mat4_mul_vec4 rotateLight
                          (vec4_of (translation (transform obj)) 1))\<rparr>\<rparr>;
                i = nat lightIndex;
                ubo = ubo\<lparr>pointLights := list_update (pointLights ubo) i
                        ((pointLights ubo ! i)
                           \<lparr>pl_position := vec4_of (translation (transform obj)) 1\<rparr>)\<rparr>;
                ubo = ubo\<lparr>pointLights := list_update (pointLights ubo) i
                        ((pointLights ubo ! i)
                           \<lparr>pl_color := vec4_of (obj_color obj) (lightIntensity light)\<rparr>)\<rparr>;
                lightIndex = lightIndex + 1
            in (case update_loop rotateLight rest lightIndex ubo of
                  Inl e \<Rightarrow> Inl e
                | Inr (rest', r) \<Rightarrow> Inr ((fst kv, obj) # rest', r)))"

definition update ::
  "('f mat4 \<Rightarrow> 'f \<Rightarrow> 'f vec3 \<Rightarrow> 'f mat4) \<Rightarrow> 'f::{zero,one,plus,times,inverse,uminus} FrameInfo
     \<Rightarrow> 'f GlobalUbo \<Rightarrow> error + ('f FrameInfo \<times> 'f GlobalUbo)" where
  "update glm_rotate frameInfo ubo =
     (let rotateLight =
            glm_rotate (mat4_diag 1) (half * frameTime frameInfo) (Vec3 (- half) (- 1) 0);
          lightIndex = 0
      in case update_loop rotateLight (gameObjects frameInfo) lightIndex ubo of
           Inl e \<Rightarrow> Inl e
         | Inr (objs, lightIndex, ubo) \<Rightarrow>
             Inr (frameInfo\<lparr>gameObjects := objs\<rparr>, ubo\<lparr>numLights := lightIndex\<rparr>))"

section \<open>The render pass\<close>

text \<open>
  \<^verbatim>\<open>sorted[disSquared] = id\<close> on a \<^verbatim>\<open>std::map<float, id_t>\<close>: the map is the list of
  its entries in ascending key order (the local \<^verbatim>\<open>sorted\<close> is \<open>sorted'\<close>, since \<open>sorted\<close>
  is a constant of HOL); two keys are the same key when neither is less than
  the other, and the value of a key that is present is overwritten.
\<close>

fun map_assign :: "'k::linorder \<Rightarrow> 'v \<Rightarrow> ('k \<times> 'v) list \<Rightarrow> ('k \<times> 'v) list" where
  "map_assign k v [] = [(k, v)]"
| "map_assign k v (e # es) =
     (if k < fst e then (k, v) # e # es
      else if fst e < k then e # map_assign k v es
      else (k, v) # es)"

fun render_sort ::
  "'f::{plus,minus,times,linorder} vec3 \<Rightarrow> (nat \<times> 'f LveGameObject) list \<Rightarrow> ('f \<times> nat) list
     \<Rightarrow> ('f \<times> nat) list" where
  "render_sort cameraPosition [] sorted' = sorted'"
| "render_sort cameraPosition (kv # rest) sorted' =
     (let obj = snd kv in
      case pointLight obj of
        None \<Rightarrow> render_sort cameraPosition rest sorted'
      | Some light \<Rightarrow>
          let offset = sub3 cameraPosition (translation (transform obj));
              disSquared = dot3 offset offset
          in render_sort cameraPosition rest (map_assign disSquared (getId obj) sorted'))"

definition map_at :: "('k \<times> 'v) list \<Rightarrow> 'k \<Rightarrow> error + 'v" where
  \<comment> \<open>\<^verbatim>\<open>unordered_map::at\<close>, which throws \<^verbatim>\<open>std::out_of_range\<close> for a missing key\<close>
  "map_at m k = (case map_of m k of None \<Rightarrow> Inl OutOfRange | Some v \<Rightarrow> Inr v)"

text \<open>
  The second loop of \<^verbatim>\<open>render\<close>, over the entries of the map from the last to the
  first. Reading \<^verbatim>\<open>lightIntensity\<close> through a null \<^verbatim>\<open>pointLight\<close> is the error
  \<open>NullPointer\<close>.
\<close>

fun render_draw ::
  "(nat \<times> 'f LveGameObject) list \<Rightarrow> ('f \<times> nat) list \<Rightarrow> 'f::one command list
     \<Rightarrow> error + 'f command list" where
  "render_draw objs [] cb = Inr cb"
| "render_draw objs (it # rest) cb =
     (case map_at objs (snd it) of
        Inl e \<Rightarrow> Inl e
      | Inr obj \<Rightarrow>
          (case pointLight obj of
             None \<Rightarrow> Inl NullPointer
           | Some light \<Rightarrow>
               let push = \<lparr>push_position = vec4_of (translation (transform obj)) 1,
                           push_color = vec4_of (obj_color obj) (lightIntensity light),
                           radius = x3 (scale (transform obj))\<rparr>;
                   cb = cb @ [PushConstants push];
                   cb = cb @ [Draw 6 1 0 0]
               in render_draw objs rest cb))"

definition render ::
  "'f::{one,plus,minus,times,linorder} FrameInfo \<Rightarrow> error + 'f FrameInfo" where
  "render frameInfo =
     (let sorted' = render_sort (getPosition (camera frameInfo)) (gameObjects frameInfo) [];
          cb = commandBuffer frameInfo @ [BindPipeline];
          cb = cb @ [BindDescriptorSets (globalDescriptorSet frameInfo)]
      in case render_draw (gameObjects frameInfo) (rev sorted') cb of
           Inl e \<Rightarrow> Inl e
         | Inr cb \<Rightarrow> Inr (frameInfo\<lparr>commandBuffer := cb\<rparr>))"

section \<open>The vocabulary of the specification\<close>

text \<open>
  The point-light objects of a frame, in the order in which the loops visit them, and the
  sort key of one of them: the squared distance from the camera, as \<^verbatim>\<open>render\<close> computes
  it.
\<close>

definition lights_of :: "(nat \<times> 'f LveGameObject) list \<Rightarrow> 'f LveGameObject list" where
  "lights_of objs = filter (\<lambda>obj. pointLight obj \<noteq> None) (map snd objs)"

definition disSquared_of :: "'f::{plus,minus,times} vec3 \<Rightarrow> 'f LveGameObject \<Rightarrow> 'f" where
  "disSquared_of cameraPosition obj =
     (let offset = sub3 cameraPosition (translation (transform obj)) in dot3 offset offset)"

text \<open>
  The light shader record of the specification: the position is the translation with
  \<open>w = 1\<close>, the color is the color with the intensity as \<open>w\<close>, the radius is the \<open>x\<close> of
  the scale.
\<close>

definition shader_record :: "'f::one LveGameObject \<Rightarrow> 'f UnitPushConstants" where
  "shader_record obj =
     \<lparr>push_position = vec4_of (translation (transform obj)) 1,
      push_color = vec4_of (obj_color obj) (lightIntensity (the (pointLight obj))),
      radius = x3 (scale (transform obj))\<rparr>"

text \<open>
  The records that a pass emits are the push constants among the commands that it
  appends to the command buffer; \<open>draw_commands\<close> are the two commands of one light.
\<close>

fun emitted :: "'f command list \<Rightarrow> 'f UnitPushConstants list" where
  "emitted [] = []"
| "emitted (PushConstants push # cs) = push # emitted cs"
| "emitted (c # cs) = emitted cs"

definition render_records ::
  "'f::{one,plus,minus,times,linorder} FrameInfo \<Rightarrow> error + 'f UnitPushConstants list" where
  "render_records frameInfo =
     (case render frameInfo of
        Inl e \<Rightarrow> Inl e
      | Inr frameInfo' \<Rightarrow>
          Inr (emitted (drop (length (commandBuffer frameInfo)) (commandBuffer frameInfo'))))"

definition draw_commands :: "'f::one LveGameObject \<Rightarrow> 'f command list" where
  "draw_commands obj = [PushConstants (shader_record obj), Draw 6 1 0 0]"

text \<open>
  The resolved draw order. \<open>last_at\<close> is the light that was visited last among those at
  squared distance \<open>k\<close>; the draw order takes the distinct squared distances from the
  largest to the smallest and, for each, that light. \<open>light_keys\<close> are the entries that
  the first loop of \<^verbatim>\<open>render\<close> assigns to the map, in the order of the assignments.
\<close>

definition last_at ::
  "'f::{plus,minus,times} vec3 \<Rightarrow> 'f LveGameObject list \<Rightarrow> 'f \<Rightarrow> 'f LveGameObject" where
  "last_at cameraPosition ls k = last (filter (\<lambda>obj. disSquared_of cameraPosition obj = k) ls)"

definition draw_order ::
  "'f::{plus,minus,times,linorder} vec3 \<Rightarrow> 'f LveGameObject list \<Rightarrow> 'f LveGameObject list" where
  "draw_order cameraPosition ls =
     map (last_at cameraPosition ls)
       (rev (sorted_list_of_set (disSquared_of cameraPosition ` set ls)))"

definition light_keys ::
  "'f::{plus,minus,times} vec3 \<Rightarrow> 'f LveGameObject list \<Rightarrow> ('f \<times> nat) list" where
  "light_keys cameraPosition ls = map (\<lambda>obj. (disSquared_of cameraPosition obj, getId obj)) ls"

text \<open>
  The update pass in the same vocabulary: the matrix \<^verbatim>\<open>rotateLight\<close> of a frame, a game
  object with its translation moved by that matrix, the entries of the map with every
  light moved, and the \<^verbatim>\<open>PointLight\<close> that the pass writes for a light.
\<close>

definition rotateLight_of ::
  "('f mat4 \<Rightarrow> 'f \<Rightarrow> 'f vec3 \<Rightarrow> 'f mat4) \<Rightarrow> 'f::{zero,one,plus,times,inverse,uminus} FrameInfo
     \<Rightarrow> 'f mat4" where
  "rotateLight_of glm_rotate frameInfo =
     glm_rotate (mat4_diag 1) (half * frameTime frameInfo) (Vec3 (- half) (- 1) 0)"

definition rotated :: "'f::{one,plus,times} mat4 \<Rightarrow> 'f LveGameObject \<Rightarrow> 'f LveGameObject" where
  "rotated rotateLight obj =
     obj\<lparr>transform := (transform obj)\<lparr>translation :=
       vec3_of (mat4_mul_vec4 rotateLight (vec4_of (translation (transform obj)) 1))\<rparr>\<rparr>"

definition moved ::
  "'f::{one,plus,times} mat4 \<Rightarrow> (nat \<times> 'f LveGameObject) list \<Rightarrow> (nat \<times> 'f LveGameObject) list" where
  "moved rotateLight objs =
     map (\<lambda>kv. if pointLight (snd kv) = None then kv else (fst kv, rotated rotateLight (snd kv)))
       objs"

definition point_light_of :: "'f::one LveGameObject \<Rightarrow> 'f PointLight" where
  "point_light_of obj =
     \<lparr>pl_position = vec4_of (translation (transform obj)) 1,
      pl_color = vec4_of (obj_color obj) (lightIntensity (the (pointLight obj)))\<rparr>"

section \<open>Example data\<close>

text \<open>
  Frames over the rational numbers, with the camera at the origin: three lights at the
  squared distances 4, 1 and 9 beside an object that is no light, and three lights of
  which two are at the squared distance 1.
\<close>

definition light_obj :: "nat \<Rightarrow> rat vec3 \<Rightarrow> rat \<Rightarrow> rat LveGameObject" where
  "light_obj i t r =
     \<lparr>getId = i, transform = \<lparr>translation = t, scale = Vec3 r 1 1\<rparr>,
      obj_color = Vec3 1 (1 / 2) 0, pointLight = Some \<lparr>lightIntensity = 10\<rparr>\<rparr>"

definition plain_obj :: "nat \<Rightarrow> rat vec3 \<Rightarrow> rat LveGameObject" where
  "plain_obj i t =
     \<lparr>getId = i, transform = \<lparr>translation = t, scale = Vec3 1 1 1\<rparr>,
      obj_color = Vec3 0 0 0, pointLight = None\<rparr>"

definition frame_of :: "(nat \<times> rat LveGameObject) list \<Rightarrow> rat FrameInfo" where
  "frame_of objs =
     \<lparr>frameIndex = 0, frameTime = 1, commandBuffer = [],
      camera = \<lparr>getPosition = Vec3 0 0 0\<rparr>, globalDescriptorSet = 0, gameObjects = objs\<rparr>"

definition three_lights :: "(nat \<times> rat LveGameObject) list" where
  "three_lights =
     [(0, light_obj 0 (Vec3 0 2 0) (1 / 10)), (1, plain_obj 1 (Vec3 5 5 5)),
      (2, light_obj 2 (Vec3 1 0 0) (2 / 10)), (3, light_obj 3 (Vec3 0 0 3) (3 / 10))]"

definition tied_lights :: "(nat \<times> rat LveGameObject) list" where
  "tied_lights =
     [(0, light_obj 0 (Vec3 1 0 0) (1 / 10)), (1, light_obj 1 (Vec3 0 1 0) (2 / 10)),
      (2, light_obj 2 (Vec3 0 0 2) (3 / 10))]"

text \<open>
  For the update pass: a buffer whose hundred lights are zero, 101 lights in one frame,
  and a stand-in for \<^verbatim>\<open>glm::rotate\<close>, which returns the matrix of the half turn about
  the axis \<open>(-0.5, -1, 0)\<close> whatever the angle; \<open>three_lights_moved\<close> are the three
  lights after that half turn.
\<close>

definition half_turn :: "rat mat4 \<Rightarrow> rat \<Rightarrow> rat vec3 \<Rightarrow> rat mat4" where
  "half_turn m angle axis =
     Mat4 (Vec4 (- 3 / 5) (4 / 5) 0 0) (Vec4 (4 / 5) (3 / 5) 0 0) (Vec4 0 0 (- 1) 0) (Vec4 0 0 0 1)"

definition ubo0 :: "rat GlobalUbo" where
  "ubo0 =
     \<lparr>projection = mat4_diag 1, view = mat4_diag 1, inverseView = mat4_diag 1,
      ambientLightColor = Vec4 1 1 1 (2 / 100),
      pointLights = replicate 100 \<lparr>pl_position = Vec4 0 0 0 0, pl_color = Vec4 0 0 0 0\<rparr>,
      numLights = 0\<rparr>"

definition many_lights :: "nat \<Rightarrow> (nat \<times> rat LveGameObject) list" where
  "many_lights n = map (\<lambda>i. (i, light_obj i (Vec3 1 0 0) 1)) [0..<n]"

definition three_lights_moved :: "(nat \<times> rat LveGameObject) list" where
  "three_lights_moved =
     [(0, light_obj 0 (Vec3 (8 / 5) (6 / 5) 0) (1 / 10)), (1, plain_obj 1 (Vec3 5 5 5)),
      (2, light_obj 2 (Vec3 (- 3 / 5) (4 / 5) 0) (2 / 10)), (3, light_obj 3 (Vec3 0 0 (- 3)) (3 / 10))]"

section \<open>Properties of the generator\<close>

lemma sierpinski_base:
  "depth \<le> 0 \<Longrightarrow> sierpinski vertices depth left right top' =
     vertices @ [\<lparr>position = top', color = Vec3 1 0 0\<rparr>,
                 \<lparr>position = right, color = Vec3 0 1 0\<rparr>,
                 \<lparr>position = left, color = Vec3 0 0 1\<rparr>]"
  by (simp add: push_back_def)

lemma sierpinski_step:
  "0 < depth \<Longrightarrow> sierpinski vertices depth left right top' =
     sierpinski
       (sierpinski
          (sierpinski vertices (depth - 1) left (midpoint2 left right) (midpoint2 left top'))
          (depth - 1) (midpoint2 left right) right (midpoint2 right top'))
       (depth - 1) (midpoint2 left top') (midpoint2 right top') top'"
  by (subst sierpinski.simps) (simp add: midpoint2_def Let_def)

lemma sierpinski_append:
  "sierpinski vertices depth left right top' = vertices @ sierpinski [] depth left right top'"
proof (induction "nat depth" arbitrary: vertices depth left right top')
  case 0
  then have "depth \<le> 0" by simp
  then show ?case by (simp only: sierpinski_base append_Nil)
next
  case (Suc n)
  then have pos: "0 < depth" and n: "n = nat (depth - 1)" by simp_all
  note IH = Suc.hyps(1) [OF n]
  define lr where "lr = midpoint2 left right"
  define lt where "lt = midpoint2 left top'"
  define rt where "rt = midpoint2 right top'"
  define a where "a = sierpinski [] (depth - 1) left lr lt"
  define b where "b = sierpinski [] (depth - 1) lr right rt"
  define c where "c = sierpinski [] (depth - 1) lt rt top'"
  have unfold: "sierpinski vs depth left right top' = (vs @ a) @ b @ c" for vs
  proof -
    have "sierpinski vs depth left right top' =
        sierpinski (sierpinski (sierpinski vs (depth - 1) left lr lt) (depth - 1) lr right rt)
          (depth - 1) lt rt top'"
      unfolding lr_def lt_def rt_def by (rule sierpinski_step [OF pos])
    also have "\<dots> = sierpinski (sierpinski vs (depth - 1) left lr lt) (depth - 1) lr right rt @ c"
      unfolding c_def by (rule IH)
    also have "sierpinski (sierpinski vs (depth - 1) left lr lt) (depth - 1) lr right rt
        = sierpinski vs (depth - 1) left lr lt @ b"
      unfolding b_def by (rule IH)
    also have "sierpinski vs (depth - 1) left lr lt = vs @ a"
      unfolding a_def by (rule IH)
    finally show ?thesis by simp
  qed
  have "sierpinski vertices depth left right top' = (vertices @ a) @ b @ c"
    by (rule unfold)
  moreover have "sierpinski [] depth left right top' = ([] @ a) @ b @ c"
    by (rule unfold)
  ultimately show ?case by simp
qed

text \<open>
  On 32-bit integers, decrementing a positive depth does not wrap around.
\<close>

lemma depth_decrement_no_wrap:
  "0 <s d \<Longrightarrow> sint (d - 1 :: 32 word) = sint d - 1"
proof -
  assume "0 <s d"
  then have pos: "0 < sint d" by (simp add: word_sless_alt)
  have "sint d < 2 ^ 31" using sint_lt [of d] by simp
  with pos show ?thesis
    by (simp add: sint_word_ariths signed_take_bit_int_eq_self_iff)
qed

lemma sierpinski_no_call:
  "depth \<le> 0 \<Longrightarrow> \<not> sierpinski_rel call (vertices, depth, left, right, top')"
  by (auto elim: sierpinski_rel.cases)

text \<open>
  C1. For every depth \<open>0 \<le> depth\<close> and every three corner points, the generator appends
  exactly \<open>3 * 3 ^ depth\<close> vertices to the vector it is given.
\<close>

theorem sierpinski_vertex_count:
  "0 \<le> depth \<Longrightarrow>
     length (sierpinski vertices depth left right top') = length vertices + 3 * 3 ^ nat depth"
proof (induction "nat depth" arbitrary: vertices depth left right top')
  case 0
  then have "depth \<le> 0" by simp
  then show ?case by (simp add: sierpinski_base del: sierpinski.simps)
next
  case (Suc n)
  then have pos: "0 < depth" and n: "n = nat (depth - 1)" and nn: "0 \<le> depth - 1"
    by simp_all
  note IH = Suc.hyps(1) [OF n nn]
  from Suc.hyps(2) have p: "(3::nat) ^ nat depth = 3 * 3 ^ n"
    by (metis power_Suc)
  show ?case
    by (simp add: sierpinski_step [OF pos] IH p n [symmetric] del: sierpinski.simps)
qed

theorem sierpinski_vertex_count_witness:
  "(0::int) \<le> 2 \<and>
   length (sierpinski [] 2 (Vec2 (- 1 / 2) (1 / 2)) (Vec2 (1 / 2) (1 / 2))
             (Vec2 0 (- 1 / 2 :: rat))) = 27"
proof -
  have h: "(0::int) \<le> 2" by simp
  show ?thesis
    using h sierpinski_vertex_count [OF h, of "[]" "Vec2 (- 1 / 2) (1 / 2)" "Vec2 (1 / 2) (1 / 2)"
      "Vec2 0 (- 1 / 2 :: rat)"]
    by (simp del: sierpinski.simps)
qed

text \<open>
  C4. At depth 0 the generator emits exactly three vertices, in the order top, right,
  left, colored red \<open>(1, 0, 0)\<close>, green \<open>(0, 1, 0)\<close> and blue \<open>(0, 0, 1)\<close>.
\<close>

theorem generate_depth_zero:
  "generate 0 left right top' =
     [\<lparr>position = top', color = Vec3 1 0 0\<rparr>,
      \<lparr>position = right, color = Vec3 0 1 0\<rparr>,
      \<lparr>position = left, color = Vec3 0 0 1\<rparr>]"
  by (simp add: generate_def push_back_def)

text \<open>
  C5. For every depth \<open>0 < depth\<close>, the output of the generator is the concatenation of
  the outputs at \<open>depth - 1\<close> on the sub-triangles (left, leftRight, leftTop),
  (leftRight, right, rightTop) and (leftTop, rightTop, top), in this order, where each of
  leftTop, rightTop and leftRight is the midpoint \<open>0.5 * (a + b)\<close> of its two corners.
\<close>

theorem generate_recursive_case:
  "0 < depth \<Longrightarrow>
     generate depth left right top' =
       generate (depth - 1) left (midpoint2 left right) (midpoint2 left top') @
       generate (depth - 1) (midpoint2 left right) right (midpoint2 right top') @
       generate (depth - 1) (midpoint2 left top') (midpoint2 right top') top'"
proof -
  assume pos: "0 < depth"
  let ?lr = "midpoint2 left right" and ?lt = "midpoint2 left top'"
    and ?rt = "midpoint2 right top'"
  have "generate depth left right top' =
      sierpinski (sierpinski (sierpinski [] (depth - 1) left ?lr ?lt) (depth - 1) ?lr right ?rt)
        (depth - 1) ?lt ?rt top'"
    unfolding generate_def by (rule sierpinski_step [OF pos])
  also have "\<dots> =
      sierpinski (sierpinski [] (depth - 1) left ?lr ?lt) (depth - 1) ?lr right ?rt @
      generate (depth - 1) ?lt ?rt top'"
    unfolding generate_def by (rule sierpinski_append)
  also have "sierpinski (sierpinski [] (depth - 1) left ?lr ?lt) (depth - 1) ?lr right ?rt =
      generate (depth - 1) left ?lr ?lt @ generate (depth - 1) ?lr right ?rt"
    unfolding generate_def by (rule sierpinski_append)
  finally show ?thesis by simp
qed

theorem generate_recursive_case_witness:
  "(0::int) < 1 \<and>
   generate 1 (Vec2 (- 1 / 2) (1 / 2)) (Vec2 (1 / 2) (1 / 2)) (Vec2 0 (- 1 / 2 :: rat)) =
     [\<lparr>position = Vec2 (- 1 / 4) 0, color = Vec3 1 0 0\<rparr>,
      \<lparr>position = Vec2 0 (1 / 2), color = Vec3 0 1 0\<rparr>,
      \<lparr>position = Vec2 (- 1 / 2) (1 / 2), color = Vec3 0 0 1\<rparr>,
      \<lparr>position = Vec2 (1 / 4) 0, color = Vec3 1 0 0\<rparr>,
      \<lparr>position = Vec2 (1 / 2) (1 / 2), color = Vec3 0 1 0\<rparr>,
      \<lparr>position = Vec2 0 (1 / 2), color = Vec3 0 0 1\<rparr>,
      \<lparr>position = Vec2 0 (- 1 / 2), color = Vec3 1 0 0\<rparr>,
      \<lparr>position = Vec2 (1 / 4) 0, color = Vec3 0 1 0\<rparr>,
      \<lparr>position = Vec2 (- 1 / 4) 0, color = Vec3 0 0 1\<rparr>]"
proof -
  have h: "(0::int) < 1" by simp
  have z: "generate 0 l r t =
      [\<lparr>position = t, color = Vec3 1 0 0\<rparr>, \<lparr>position = r, color = Vec3 0 1 0\<rparr>,
       \<lparr>position = l, color = Vec3 0 0 1\<rparr>]" for l r t :: "rat vec2"
    by (simp add: generate_def push_back_def)
  show ?thesis
    using generate_recursive_case [OF h, of "Vec2 (- 1 / 2) (1 / 2)" "Vec2 (1 / 2) (1 / 2)"
      "Vec2 0 (- 1 / 2 :: rat)"]
    by (simp add: z midpoint2_def half_def)
qed

text \<open>
  C8, as the code has it. The test of the base case is \<open>depth \<le> 0\<close>: for every depth
  that is zero or negative the generator makes no recursive call (no call is related to
  such an invocation by the call relation of the function) and appends exactly the three
  vertices of the base case. The recursion is on \<open>nat depth\<close>, the measure of the
  termination proof of \<open>sierpinski\<close>, so the generator terminates on every depth.
\<close>

theorem sierpinski_nonpositive_depth:
  "depth \<le> 0 \<Longrightarrow>
     sierpinski vertices depth left right top' =
       vertices @ [\<lparr>position = top', color = Vec3 1 0 0\<rparr>,
                   \<lparr>position = right, color = Vec3 0 1 0\<rparr>,
                   \<lparr>position = left, color = Vec3 0 0 1\<rparr>]
     \<and> (\<forall>call. \<not> sierpinski_rel call (vertices, depth, left, right, top'))"
  by (simp add: sierpinski_base sierpinski_no_call del: sierpinski.simps)

theorem sierpinski_nonpositive_depth_witness:
  "(- 7::int) \<le> 0 \<and>
   sierpinski [] (- 7) (Vec2 (- 1 / 2) (1 / 2)) (Vec2 (1 / 2) (1 / 2)) (Vec2 0 (- 1 / 2 :: rat)) =
     [\<lparr>position = Vec2 0 (- 1 / 2), color = Vec3 1 0 0\<rparr>,
      \<lparr>position = Vec2 (1 / 2) (1 / 2), color = Vec3 0 1 0\<rparr>,
      \<lparr>position = Vec2 (- 1 / 2) (1 / 2), color = Vec3 0 0 1\<rparr>]"
proof -
  have h: "(- 7::int) \<le> 0" by simp
  show ?thesis
    using h sierpinski_nonpositive_depth [OF h, of "[]" "Vec2 (- 1 / 2) (1 / 2)"
      "Vec2 (1 / 2) (1 / 2)" "Vec2 0 (- 1 / 2 :: rat)"]
    by (simp del: sierpinski.simps)
qed

text \<open>
  C8, as the claim states it, fails: at the negative depth \<open>- 1\<close> the generator returns,
  with the three vertices of the base case.
\<close>

theorem sierpinski_negative_depth_returns:
  "sierpinski [] (- 1) (Vec2 (- 1 / 2) (1 / 2)) (Vec2 (1 / 2) (1 / 2)) (Vec2 0 (- 1 / 2 :: rat)) =
     [\<lparr>position = Vec2 0 (- 1 / 2), color = Vec3 1 0 0\<rparr>,
      \<lparr>position = Vec2 (1 / 2) (1 / 2), color = Vec3 0 1 0\<rparr>,
      \<lparr>position = Vec2 (- 1 / 2) (1 / 2), color = Vec3 0 0 1\<rparr>]"
  by (simp add: push_back_def)

text \<open>
  C10. The generator only appends: the vector after the call is the vector before the
  call followed by the generated vertices, so every element that was in it is still at
  its index, unchanged.
\<close>

theorem sierpinski_appends_only:
  "sierpinski vertices depth left right top' = vertices @ generate depth left right top'
   \<and> take (length vertices) (sierpinski vertices depth left right top') = vertices
   \<and> drop (length vertices) (sierpinski vertices depth left right top') =
       generate depth left right top'"
proof -
  have "sierpinski vertices depth left right top' = vertices @ generate depth left right top'"
    unfolding generate_def by (rule sierpinski_append)
  then show ?thesis by simp
qed

section \<open>Properties of the render pass\<close>

subsection \<open>Assignment to the sorted map\<close>

lemma map_assign_keys:
  "set (map fst (map_assign k v m)) = insert k (set (map fst m))"
  by (induction m) auto

lemma map_assign_sorted:
  "sorted_wrt (<) (map fst m) \<Longrightarrow> sorted_wrt (<) (map fst (map_assign k v m))"
proof (induction m)
  case Nil
  then show ?case by simp
next
  case (Cons e es)
  have keys: "set (map fst (map_assign k v es)) = insert k (set (map fst es))"
    by (rule map_assign_keys)
  from Cons show ?case
    using keys by (auto simp del: set_map)
qed

lemma map_assign_map_of:
  "sorted_wrt (<) (map fst m) \<Longrightarrow> map_of (map_assign k v m) = (map_of m)(k \<mapsto> v)"
proof (induction m)
  case Nil
  then show ?case by simp
next
  case (Cons e es)
  show ?case
  proof (cases "k < fst e")
    case True
    then show ?thesis by (cases e) (auto simp: fun_eq_iff)
  next
    case False
    show ?thesis
    proof (cases "fst e < k")
      case True
      with Cons show ?thesis by (cases e) (auto simp: fun_eq_iff)
    next
      case False
      with \<open>\<not> k < fst e\<close> have "fst e = k" by simp
      then show ?thesis by (cases e) (auto simp: fun_eq_iff)
    qed
  qed
qed

subsection \<open>The first loop\<close>

lemma render_sort_sorted:
  "sorted_wrt (<) (map fst m) \<Longrightarrow> sorted_wrt (<) (map fst (render_sort cam objs m))"
  by (induction objs arbitrary: m) (auto simp: Let_def map_assign_sorted split: option.splits)

lemma render_sort_keys:
  "set (map fst (render_sort cam objs m)) =
     set (map fst m) \<union> disSquared_of cam ` set (lights_of objs)"
proof (induction objs arbitrary: m)
  case Nil
  then show ?case by (simp add: lights_of_def)
next
  case (Cons kv rest)
  show ?case
  proof (cases "pointLight (snd kv)")
    case None
    then show ?thesis using Cons [of m] by (simp add: lights_of_def)
  next
    case (Some light)
    then show ?thesis
      using Cons [of "map_assign (disSquared_of cam (snd kv)) (getId (snd kv)) m"]
      by (simp add: lights_of_def map_assign_keys disSquared_of_def Let_def del: set_map)
  qed
qed

lemma render_sort_map_of:
  "sorted_wrt (<) (map fst m) \<Longrightarrow>
     map_of (render_sort cam objs m) = map_of m ++ map_of (rev (light_keys cam (lights_of objs)))"
proof (induction objs arbitrary: m)
  case Nil
  then show ?case by (simp add: lights_of_def light_keys_def)
next
  case (Cons kv rest)
  show ?case
  proof (cases "pointLight (snd kv)")
    case None
    then show ?thesis using Cons by (simp add: lights_of_def)
  next
    case (Some light)
    let ?k = "disSquared_of cam (snd kv)" and ?v = "getId (snd kv)"
    have s: "sorted_wrt (<) (map fst (map_assign ?k ?v m))"
      using Cons.prems by (rule map_assign_sorted)
    have "map_of (render_sort cam (kv # rest) m) = map_of (render_sort cam rest (map_assign ?k ?v m))"
      using Some by (simp add: disSquared_of_def Let_def)
    also have "\<dots> = map_of (map_assign ?k ?v m) ++ map_of (rev (light_keys cam (lights_of rest)))"
      by (rule Cons.IH [OF s])
    also have "map_of (map_assign ?k ?v m) = (map_of m)(?k \<mapsto> ?v)"
      using Cons.prems by (rule map_assign_map_of)
    also have "(map_of m)(?k \<mapsto> ?v) ++ map_of (rev (light_keys cam (lights_of rest)))
        = map_of m ++ map_of (rev (light_keys cam (lights_of (kv # rest))))"
      using Some by (simp add: lights_of_def light_keys_def map_add_upd_left)
    finally show ?thesis .
  qed
qed


subsection \<open>The entries of the sorted map\<close>

lemma map_of_rev_last:
  "k \<in> f ` set xs \<Longrightarrow>
     map_of (rev (map (\<lambda>obj. (f obj, g obj)) xs)) k = Some (g (last (filter (\<lambda>obj. f obj = k) xs)))"
proof (induction xs rule: rev_induct)
  case Nil
  then show ?case by simp
next
  case (snoc x xs)
  show ?case
  proof (cases "f x = k")
    case True
    then show ?thesis by simp
  next
    case False
    with snoc.prems have "k \<in> f ` set xs" by auto
    with snoc.IH False show ?thesis by simp
  qed
qed

lemma strict_sorted_entries:
  assumes "sorted_wrt (<) (map fst (m :: ('k::linorder \<times> 'v) list))"
  shows "m = map (\<lambda>k. (k, the (map_of m k))) (map fst m)"
proof -
  from assms have d: "distinct (map fst m)"
    by (simp add: strict_sorted_iff)
  have "the (map_of m (fst e)) = snd e" if "e \<in> set m" for e
  proof -
    from that have "(fst e, snd e) \<in> set m" by simp
    with d have "map_of m (fst e) = Some (snd e)" by (rule map_of_is_SomeI)
    then show ?thesis by simp
  qed
  then have "map (\<lambda>e. (fst e, the (map_of m (fst e)))) m = map (\<lambda>e. e) m"
    by (intro map_cong refl) simp
  then show ?thesis by (simp add: comp_def)
qed

lemma last_at_in:
  assumes "k \<in> disSquared_of cam ` set ls"
  shows "last_at cam ls k \<in> set ls" and "disSquared_of cam (last_at cam ls k) = k"
proof -
  let ?xs = "filter (\<lambda>obj. disSquared_of cam obj = k) ls"
  from assms have ne: "?xs \<noteq> []" by (auto simp: filter_empty_conv)
  then have "last ?xs \<in> set ?xs" by (rule last_in_set)
  then show "last_at cam ls k \<in> set ls" and "disSquared_of cam (last_at cam ls k) = k"
    by (simp_all add: last_at_def)
qed

lemma render_sort_entries:
  fixes cam :: "'f::{plus,minus,times,linorder} vec3"
  shows "render_sort cam objs [] =
     map (\<lambda>k. (k, getId (last_at cam (lights_of objs) k)))
       (sorted_list_of_set (disSquared_of cam ` set (lights_of objs)))"
proof -
  let ?M = "render_sort cam objs []"
  let ?K = "disSquared_of cam ` set (lights_of objs)"
  have s: "sorted_wrt (<) (map fst ?M)"
    by (rule render_sort_sorted) simp
  have keys: "set (map fst ?M) = ?K"
    using render_sort_keys [of cam objs "[]"] by simp
  have mo: "map_of ?M = map_of (rev (light_keys cam (lights_of objs)))"
    using render_sort_map_of [of "[]" cam objs] by simp
  from s have "sorted (map fst ?M)" and "distinct (map fst ?M)"
    by (simp_all add: strict_sorted_iff)
  then have fst_eq: "map fst ?M = sorted_list_of_set ?K"
    using keys by (intro sorted_distinct_set_unique) simp_all
  have val: "the (map_of ?M k) = getId (last_at cam (lights_of objs) k)" if "k \<in> ?K" for k
    using map_of_rev_last [OF that, of getId] by (simp add: mo light_keys_def last_at_def)
  have "?M = map (\<lambda>k. (k, the (map_of ?M k))) (map fst ?M)"
    using s by (rule strict_sorted_entries)
  also have "\<dots> = map (\<lambda>k. (k, the (map_of ?M k))) (sorted_list_of_set ?K)"
    by (simp only: fst_eq)
  also have "\<dots> = map (\<lambda>k. (k, getId (last_at cam (lights_of objs) k))) (sorted_list_of_set ?K)"
    by (intro map_cong refl) (simp add: val)
  finally show ?thesis .
qed

subsection \<open>The draw loop\<close>

lemma wf_objects_lookup:
  assumes "wf_objects objs" and "obj \<in> set (lights_of objs)"
  shows "map_of objs (getId obj) = Some obj"
proof -
  from assms(2) obtain k where mem: "(k, obj) \<in> set objs"
    by (auto simp: lights_of_def)
  with assms(1) have "getId obj = k"
    by (auto simp: wf_objects_def list_all_iff)
  moreover from assms(1) have "distinct (map fst objs)"
    by (simp add: wf_objects_def)
  ultimately show ?thesis using mem by (simp add: map_of_is_SomeI)
qed

lemma lights_of_pointLight: "obj \<in> set (lights_of objs) \<Longrightarrow> pointLight obj \<noteq> None"
  by (simp add: lights_of_def)

lemma render_draw_lights:
  assumes "\<And>it. it \<in> set its \<Longrightarrow> map_of objs (snd it) = Some (pick (fst it)) \<and> pointLight (pick (fst it)) \<noteq> None"
  shows "render_draw objs its cb = Inr (cb @ concat (map (\<lambda>it. draw_commands (pick (fst it))) its))"
  using assms
proof (induction its arbitrary: cb)
  case Nil
  then show ?case by simp
next
  case (Cons it rest)
  from Cons.prems [of it] obtain light where
    look: "map_of objs (snd it) = Some (pick (fst it))" and
    light: "pointLight (pick (fst it)) = Some light"
    by auto
  have rest: "render_draw objs rest cb' =
      Inr (cb' @ concat (map (\<lambda>it. draw_commands (pick (fst it))) rest))" for cb'
    by (rule Cons.IH) (simp add: Cons.prems)
  show ?case
    by (simp add: map_at_def look light rest draw_commands_def shader_record_def)
qed

lemma emitted_append: "emitted (xs @ ys) = emitted xs @ emitted ys"
  by (induction xs rule: emitted.induct) simp_all

lemma emitted_draws:
  "emitted (concat (map (\<lambda>x. draw_commands (pick x)) xs)) = map (\<lambda>x. shader_record (pick x)) xs"
  by (induction xs) (simp_all add: draw_commands_def)

lemma render_commands:
  fixes frameInfo :: "'f::{one,plus,minus,times,linorder} FrameInfo"
  assumes "wf_objects (gameObjects frameInfo)"
  shows "render frameInfo =
     Inr (frameInfo\<lparr>commandBuffer :=
       commandBuffer frameInfo @
       [BindPipeline, BindDescriptorSets (globalDescriptorSet frameInfo)] @
       concat (map (\<lambda>k. draw_commands
                 (last_at (getPosition (camera frameInfo)) (lights_of (gameObjects frameInfo)) k))
         (rev (sorted_list_of_set
            (disSquared_of (getPosition (camera frameInfo)) `
               set (lights_of (gameObjects frameInfo))))))\<rparr>)"
proof -
  let ?cam = "getPosition (camera frameInfo)"
  let ?objs = "gameObjects frameInfo"
  let ?K = "disSquared_of ?cam ` set (lights_of ?objs)"
  let ?pick = "last_at ?cam (lights_of ?objs)"
  let ?its = "rev (render_sort ?cam ?objs [])"
  have its: "?its = map (\<lambda>k. (k, getId (?pick k))) (rev (sorted_list_of_set ?K))"
    by (simp add: render_sort_entries rev_map)
  have ok: "map_of ?objs (snd it) = Some (?pick (fst it)) \<and> pointLight (?pick (fst it)) \<noteq> None"
    if "it \<in> set ?its" for it
  proof -
    from that obtain k where k: "k \<in> ?K" and it: "it = (k, getId (?pick k))"
      unfolding its by auto
    from k have "?pick k \<in> set (lights_of ?objs)" by (rule last_at_in)
    with assms it show ?thesis
      by (simp add: wf_objects_lookup lights_of_pointLight)
  qed
  have maps: "map (\<lambda>it. draw_commands (?pick (fst it))) ?its
      = map (\<lambda>k. draw_commands (?pick k)) (rev (sorted_list_of_set ?K))"
    unfolding its by (simp add: comp_def)
  have "render_draw ?objs ?its cb =
      Inr (cb @ concat (map (\<lambda>it. draw_commands (?pick (fst it))) ?its))" for cb
    using ok by (rule render_draw_lights)
  then have draw: "render_draw ?objs ?its cb =
      Inr (cb @ concat (map (\<lambda>k. draw_commands (?pick k)) (rev (sorted_list_of_set ?K))))" for cb
    by (simp only: maps)
  show ?thesis
    by (simp add: render_def Let_def draw)
qed

lemma render_records_general:
  fixes frameInfo :: "'f::{one,plus,minus,times,linorder} FrameInfo"
  assumes "wf_objects (gameObjects frameInfo)"
  shows "render_records frameInfo =
     Inr (map (\<lambda>k. shader_record
                 (last_at (getPosition (camera frameInfo)) (lights_of (gameObjects frameInfo)) k))
         (rev (sorted_list_of_set
            (disSquared_of (getPosition (camera frameInfo)) `
               set (lights_of (gameObjects frameInfo))))))"
  by (simp add: render_records_def render_commands [OF assms] emitted_append emitted_draws)

lemma filter_key_single:
  "distinct (map f xs) \<Longrightarrow> x \<in> set xs \<Longrightarrow> filter (\<lambda>y. f y = f x) xs = [x]"
proof (induction xs)
  case Nil
  then show ?case by simp
next
  case (Cons a xs)
  show ?case
  proof (cases "a = x")
    case True
    from Cons.prems(1) have "f a \<notin> f ` set xs" by simp
    then have "f y \<noteq> f a" if "y \<in> set xs" for y
      using that by (metis imageI)
    then have "filter (\<lambda>y. f y = f a) xs = []"
      by (simp add: filter_empty_conv)
    with True show ?thesis by simp
  next
    case False
    with Cons.prems have x: "x \<in> set xs" by simp
    with Cons.prems(1) have "f a \<noteq> f x" by auto
    with Cons x show ?thesis by simp
  qed
qed

lemma draw_order_distinct:
  fixes cam :: "'f::{plus,minus,times,linorder} vec3"
  assumes d: "distinct (map (disSquared_of cam) ls)"
  shows "draw_order cam ls = rev (sort_key (disSquared_of cam) ls)"
proof -
  let ?f = "disSquared_of cam"
  let ?L = "sort_key ?f ls"
  from d have "distinct ls" and inj: "inj_on ?f (set ls)"
    by (simp_all add: distinct_map)
  then have "distinct (map ?f ?L)"
    by (simp add: distinct_map)
  moreover have "sorted (map ?f ?L)" by (rule sorted_sort_key)
  ultimately have keys: "map ?f ?L = sorted_list_of_set (?f ` set ls)"
    by (intro sorted_distinct_set_unique) simp_all
  have "last_at cam ls (?f obj) = obj" if "obj \<in> set ls" for obj
    using filter_key_single [OF d that] by (simp add: last_at_def)
  then have "map (last_at cam ls) (map ?f ?L) = map (\<lambda>obj. obj) ?L"
    unfolding map_map by (intro map_cong refl) simp
  then have "map (last_at cam ls) (sorted_list_of_set (?f ` set ls)) = ?L"
    by (simp add: keys)
  then show ?thesis
    by (simp add: draw_order_def rev_map [symmetric])
qed

lemma sort_key_strict:
  fixes f :: "'a \<Rightarrow> 'k::linorder"
  assumes "distinct (map f xs)"
  shows "sorted_wrt (\<lambda>a b. f b < f a) (rev (sort_key f xs))"
proof -
  from assms have "distinct xs" and "inj_on f (set xs)"
    by (simp_all add: distinct_map)
  then have "distinct (map f (sort_key f xs))"
    by (simp add: distinct_map)
  then have "sorted_wrt (<) (map f (sort_key f xs))"
    by (simp add: strict_sorted_iff sorted_sort_key)
  then have "sorted_wrt (\<lambda>a b. f a < f b) (sort_key f xs)"
    by (simp add: sorted_wrt_map)
  then show ?thesis
    by (simp add: sorted_wrt_rev)
qed

lemma render_records_draw_order:
  fixes frameInfo :: "'f::{one,plus,minus,times,linorder} FrameInfo"
  assumes "wf_objects (gameObjects frameInfo)"
  shows "render_records frameInfo =
     Inr (map shader_record
       (draw_order (getPosition (camera frameInfo)) (lights_of (gameObjects frameInfo))))"
  by (simp add: render_records_general [OF assms] draw_order_def)

text \<open>
  C2. When the squared distances of the lights of a frame from the camera are pairwise
  distinct, the render pass emits exactly one record per light, the records of the lights
  sorted by strictly decreasing squared distance: the farthest light first, the nearest
  last.
\<close>

theorem render_farthest_first:
  fixes frameInfo :: "'f::{one,plus,minus,times,linorder} FrameInfo"
  defines "cam \<equiv> getPosition (camera frameInfo)"
  defines "ls \<equiv> lights_of (gameObjects frameInfo)"
  assumes wf: "wf_objects (gameObjects frameInfo)"
    and d: "distinct (map (disSquared_of cam) ls)"
  shows "render_records frameInfo = Inr (map shader_record (rev (sort_key (disSquared_of cam) ls)))
    \<and> length (rev (sort_key (disSquared_of cam) ls)) = length ls
    \<and> set (rev (sort_key (disSquared_of cam) ls)) = set ls
    \<and> sorted_wrt (\<lambda>a b. disSquared_of cam b < disSquared_of cam a)
         (rev (sort_key (disSquared_of cam) ls))"
proof -
  have "render_records frameInfo = Inr (map shader_record (draw_order cam ls))"
    unfolding cam_def ls_def using wf by (rule render_records_draw_order)
  also have "draw_order cam ls = rev (sort_key (disSquared_of cam) ls)"
    using d by (rule draw_order_distinct)
  finally show ?thesis
    using sort_key_strict [OF d] by simp
qed

theorem render_farthest_first_witness:
  "wf_objects (gameObjects (frame_of three_lights)) \<and>
   distinct (map (disSquared_of (getPosition (camera (frame_of three_lights))))
     (lights_of (gameObjects (frame_of three_lights)))) \<and>
   map (disSquared_of (Vec3 0 0 0))
     [light_obj 3 (Vec3 0 0 3) (3 / 10), light_obj 0 (Vec3 0 2 0) (1 / 10),
      light_obj 2 (Vec3 1 0 0) (2 / 10)] = [9, 4, 1] \<and>
   render_records (frame_of three_lights) =
     Inr (map shader_record
       [light_obj 3 (Vec3 0 0 3) (3 / 10), light_obj 0 (Vec3 0 2 0) (1 / 10),
        light_obj 2 (Vec3 1 0 0) (2 / 10)])"
proof -
  have g: "gameObjects (frame_of three_lights) = three_lights"
    and c: "getPosition (camera (frame_of three_lights)) = Vec3 0 0 0"
    by (simp_all add: frame_of_def)
  have wf: "wf_objects (gameObjects (frame_of three_lights))"
    unfolding g by code_simp
  have d: "distinct (map (disSquared_of (getPosition (camera (frame_of three_lights))))
      (lights_of (gameObjects (frame_of three_lights))))"
    unfolding g c by code_simp
  have keys: "map (disSquared_of (Vec3 0 0 0))
      [light_obj 3 (Vec3 0 0 3) (3 / 10), light_obj 0 (Vec3 0 2 0) (1 / 10),
       light_obj 2 (Vec3 1 0 0) (2 / 10)] = [9, 4, 1]"
    by code_simp
  have order: "rev (sort_key (disSquared_of (Vec3 0 0 0)) (lights_of three_lights)) =
      [light_obj 3 (Vec3 0 0 3) (3 / 10), light_obj 0 (Vec3 0 2 0) (1 / 10),
       light_obj 2 (Vec3 1 0 0) (2 / 10)]"
    by code_simp
  from render_farthest_first [OF wf d]
  have "render_records (frame_of three_lights) =
      Inr (map shader_record
        (rev (sort_key (disSquared_of (Vec3 0 0 0)) (lights_of three_lights))))"
    unfolding g c by (rule conjunct1)
  then show ?thesis
    using wf d keys by (simp only: order simp_thms)
qed

lemma draw_order_set:
  fixes cam :: "'f::{plus,minus,times,linorder} vec3"
  shows "set (draw_order cam ls) =
     {obj \<in> set ls. obj = last_at cam ls (disSquared_of cam obj)}"
proof -
  let ?K = "disSquared_of cam ` set ls"
  have "set (draw_order cam ls) = last_at cam ls ` ?K"
    by (simp add: draw_order_def)
  also have "\<dots> = {obj \<in> set ls. obj = last_at cam ls (disSquared_of cam obj)}"
  proof (intro equalityI subsetI)
    fix obj
    assume "obj \<in> last_at cam ls ` ?K"
    then obtain k where k: "k \<in> ?K" and obj: "obj = last_at cam ls k" by blast
    from last_at_in [OF k] obj
    show "obj \<in> {obj \<in> set ls. obj = last_at cam ls (disSquared_of cam obj)}"
      by simp
  next
    fix obj
    assume "obj \<in> {obj \<in> set ls. obj = last_at cam ls (disSquared_of cam obj)}"
    then have "obj \<in> set ls" and e: "obj = last_at cam ls (disSquared_of cam obj)"
      by simp_all
    then have "disSquared_of cam obj \<in> ?K" by simp
    with e show "obj \<in> last_at cam ls ` ?K" by (rule image_eqI)
  qed
  finally show ?thesis .
qed

lemma draw_order_length:
  fixes cam :: "'f::{plus,minus,times,linorder} vec3"
  shows "length (draw_order cam ls) = card (disSquared_of cam ` set ls)"
  by (simp add: draw_order_def)

lemma draw_order_shorter:
  fixes cam :: "'f::{plus,minus,times,linorder} vec3"
  assumes "\<not> distinct (map (disSquared_of cam) ls)"
  shows "length (draw_order cam ls) < length ls"
proof -
  let ?ks = "map (disSquared_of cam) ls"
  from assms have "card (set ?ks) \<noteq> length ?ks"
    using card_distinct by blast
  moreover have "card (set ?ks) \<le> length ?ks" by (rule card_length)
  ultimately have "card (set ?ks) < length ?ks" by simp
  then show ?thesis by (simp add: draw_order_length)
qed

text \<open>
  C3. The sorted map has one value per key: of the lights at one squared distance only
  the one that the first loop visits last is drawn. The emitted records are those of
  the draw order, one per distinct squared distance, so that there are fewer records
  than lights as soon as two lights are at the same squared distance.
\<close>

theorem render_distance_collision:
  fixes frameInfo :: "'f::{one,plus,minus,times,linorder} FrameInfo"
  defines "cam \<equiv> getPosition (camera frameInfo)"
  defines "ls \<equiv> lights_of (gameObjects frameInfo)"
  assumes wf: "wf_objects (gameObjects frameInfo)"
  shows "render_records frameInfo = Inr (map shader_record (draw_order cam ls))
    \<and> length (draw_order cam ls) = card (disSquared_of cam ` set ls)
    \<and> set (draw_order cam ls) =
        {obj \<in> set ls.
           obj = last (filter (\<lambda>other. disSquared_of cam other = disSquared_of cam obj) ls)}
    \<and> (\<not> distinct (map (disSquared_of cam) ls) \<longrightarrow> length (draw_order cam ls) < length ls)"
proof (intro conjI impI)
  show "render_records frameInfo = Inr (map shader_record (draw_order cam ls))"
    unfolding cam_def ls_def using wf by (rule render_records_draw_order)
  show "length (draw_order cam ls) = card (disSquared_of cam ` set ls)"
    by (rule draw_order_length)
  show "set (draw_order cam ls) =
      {obj \<in> set ls.
         obj = last (filter (\<lambda>other. disSquared_of cam other = disSquared_of cam obj) ls)}"
    using draw_order_set [of cam ls] by (simp add: last_at_def)
  show "length (draw_order cam ls) < length ls" if "\<not> distinct (map (disSquared_of cam) ls)"
    using that by (rule draw_order_shorter)
qed

theorem render_distance_collision_witness:
  "wf_objects (gameObjects (frame_of tied_lights)) \<and>
   \<not> distinct (map (disSquared_of (getPosition (camera (frame_of tied_lights))))
        (lights_of (gameObjects (frame_of tied_lights)))) \<and>
   map (disSquared_of (Vec3 0 0 0)) (lights_of tied_lights) = [1, 1, 4] \<and>
   length (lights_of tied_lights) = 3 \<and>
   render_records (frame_of tied_lights) =
     Inr (map shader_record
       [light_obj 2 (Vec3 0 0 2) (3 / 10), light_obj 1 (Vec3 0 1 0) (2 / 10)])"
proof -
  have g: "gameObjects (frame_of tied_lights) = tied_lights"
    and c: "getPosition (camera (frame_of tied_lights)) = Vec3 0 0 0"
    by (simp_all add: frame_of_def)
  have wf: "wf_objects (gameObjects (frame_of tied_lights))"
    unfolding g by code_simp
  have keys: "map (disSquared_of (Vec3 0 0 0)) (lights_of tied_lights) = [1, 1, 4]"
    by code_simp
  have n: "length (lights_of tied_lights) = 3"
    by code_simp
  have order: "draw_order (Vec3 0 0 0) (lights_of tied_lights) =
      [light_obj 2 (Vec3 0 0 2) (3 / 10), light_obj 1 (Vec3 0 1 0) (2 / 10)]"
    by code_simp
  from render_distance_collision [OF wf]
  have "render_records (frame_of tied_lights) =
      Inr (map shader_record (draw_order (Vec3 0 0 0) (lights_of tied_lights)))"
    unfolding g c by (rule conjunct1)
  then show ?thesis
    using wf keys n unfolding g c by (simp only: order) simp
qed

lemma draw_order_lights:
  fixes cam :: "'f::{plus,minus,times,linorder} vec3"
  shows "set (draw_order cam ls) \<subseteq> set ls"
  by (simp add: draw_order_set)

text \<open>
  C9. For every light of the resolved draw order, the record emitted at its place has
  the translation of the light with \<open>w = 1\<close> as its position, the color of the light with
  the intensity as \<open>w\<close> as its color, and the \<open>x\<close> of the scale of the light as its radius.
\<close>

theorem render_record_fields:
  fixes frameInfo :: "'f::{one,plus,minus,times,linorder} FrameInfo"
  defines "order \<equiv> draw_order (getPosition (camera frameInfo)) (lights_of (gameObjects frameInfo))"
  assumes wf: "wf_objects (gameObjects frameInfo)"
  shows "\<exists>records. render_records frameInfo = Inr records \<and> length records = length order \<and>
     (\<forall>i < length order.
        (order ! i) \<in> snd ` set (gameObjects frameInfo) \<and>
        (\<exists>light. pointLight (order ! i) = Some light \<and>
           push_position (records ! i) = vec4_of (translation (transform (order ! i))) 1 \<and>
           push_color (records ! i) = vec4_of (obj_color (order ! i)) (lightIntensity light) \<and>
           radius (records ! i) = x3 (scale (transform (order ! i)))))"
proof (rule exI [of _ "map shader_record order"], intro conjI allI impI)
  show "render_records frameInfo = Inr (map shader_record order)"
    unfolding order_def using wf by (rule render_records_draw_order)
  show "length (map shader_record order) = length order" by simp
next
  fix i
  assume i: "i < length order"
  then have "order ! i \<in> set order" by simp
  then have mem: "order ! i \<in> set (lights_of (gameObjects frameInfo))"
    unfolding order_def using draw_order_lights by blast
  then show "order ! i \<in> snd ` set (gameObjects frameInfo)"
    by (auto simp: lights_of_def)
  from mem obtain light where light: "pointLight (order ! i) = Some light"
    by (auto simp: lights_of_def)
  with i show "\<exists>light. pointLight (order ! i) = Some light \<and>
      push_position (map shader_record order ! i) = vec4_of (translation (transform (order ! i))) 1 \<and>
      push_color (map shader_record order ! i) =
        vec4_of (obj_color (order ! i)) (lightIntensity light) \<and>
      radius (map shader_record order ! i) = x3 (scale (transform (order ! i)))"
    by (simp add: shader_record_def)
qed

theorem render_record_fields_witness:
  "wf_objects (gameObjects (frame_of three_lights)) \<and>
   draw_order (getPosition (camera (frame_of three_lights)))
     (lights_of (gameObjects (frame_of three_lights))) =
     [light_obj 3 (Vec3 0 0 3) (3 / 10), light_obj 0 (Vec3 0 2 0) (1 / 10),
      light_obj 2 (Vec3 1 0 0) (2 / 10)] \<and>
   (\<exists>records. render_records (frame_of three_lights) = Inr records \<and> length records = 3 \<and>
      push_position (records ! 0) = Vec4 0 0 3 1 \<and>
      push_color (records ! 0) = Vec4 1 (1 / 2) 0 10 \<and>
      radius (records ! 0) = 3 / 10)"
proof -
  have wf: "wf_objects (gameObjects (frame_of three_lights))"
    by code_simp
  have order: "draw_order (getPosition (camera (frame_of three_lights)))
      (lights_of (gameObjects (frame_of three_lights))) =
      [light_obj 3 (Vec3 0 0 3) (3 / 10), light_obj 0 (Vec3 0 2 0) (1 / 10),
       light_obj 2 (Vec3 1 0 0) (2 / 10)]"
    by code_simp
  from render_record_fields [OF wf] obtain records where
    r: "render_records (frame_of three_lights) = Inr records" and
    n: "length records = 3" and
    f: "\<forall>i < 3. \<exists>light.
          pointLight ([light_obj 3 (Vec3 0 0 3) (3 / 10), light_obj 0 (Vec3 0 2 0) (1 / 10),
            light_obj 2 (Vec3 1 0 0) (2 / 10)] ! i) = Some light \<and>
          push_position (records ! i) = vec4_of (translation (transform
            ([light_obj 3 (Vec3 0 0 3) (3 / 10), light_obj 0 (Vec3 0 2 0) (1 / 10),
              light_obj 2 (Vec3 1 0 0) (2 / 10)] ! i))) 1 \<and>
          push_color (records ! i) = vec4_of (obj_color
            ([light_obj 3 (Vec3 0 0 3) (3 / 10), light_obj 0 (Vec3 0 2 0) (1 / 10),
              light_obj 2 (Vec3 1 0 0) (2 / 10)] ! i)) (lightIntensity light) \<and>
          radius (records ! i) = x3 (scale (transform
            ([light_obj 3 (Vec3 0 0 3) (3 / 10), light_obj 0 (Vec3 0 2 0) (1 / 10),
              light_obj 2 (Vec3 1 0 0) (2 / 10)] ! i)))"
    unfolding order by auto
  from f have "\<exists>light.
      pointLight (light_obj 3 (Vec3 0 0 3) (3 / 10)) = Some light \<and>
      push_position (records ! 0) = vec4_of (translation (transform (light_obj 3 (Vec3 0 0 3) (3 / 10)))) 1 \<and>
      push_color (records ! 0) = vec4_of (obj_color (light_obj 3 (Vec3 0 0 3) (3 / 10))) (lightIntensity light) \<and>
      radius (records ! 0) = x3 (scale (transform (light_obj 3 (Vec3 0 0 3) (3 / 10))))"
    by (auto dest: spec [of _ 0])
  then have "push_position (records ! 0) = Vec4 0 0 3 1 \<and>
      push_color (records ! 0) = Vec4 1 (1 / 2) 0 10 \<and>
      radius (records ! 0) = 3 / 10"
    by (auto simp: light_obj_def)
  with wf order r n show ?thesis by blast
qed

section \<open>Properties of the update pass\<close>

lemma lights_of_Cons:
  "lights_of (kv # rest) =
     (if pointLight (snd kv) = None then lights_of rest else snd kv # lights_of rest)"
  by (simp add: lights_of_def)

lemma lights_of_Nil: "lights_of [] = []"
  by (simp add: lights_of_def)

lemma point_light_overwrite:
  "(p\<lparr>pl_position := a, pl_color := b\<rparr> :: 'f PointLight) = \<lparr>pl_position = a, pl_color = b\<rparr>"
  by (cases p) simp

lemma write_light:
  fixes pl :: "'f::one PointLight list"
  assumes "pointLight obj = Some light" and "i < length pl"
  shows "list_update (list_update pl i ((pl ! i)\<lparr>pl_position := vec4_of (translation (transform obj)) 1\<rparr>)) i
      ((list_update pl i ((pl ! i)\<lparr>pl_position := vec4_of (translation (transform obj)) 1\<rparr>) ! i)
         \<lparr>pl_color := vec4_of (obj_color obj) (lightIntensity light)\<rparr>)
    = list_update pl i (point_light_of obj)"
  using assms by (simp add: point_light_of_def point_light_overwrite)

lemma splice_step:
  assumes "i < length pl"
  shows "take (Suc i) (list_update pl i p) @ ps @ drop (Suc i + n) (list_update pl i p)
    = take i pl @ (p # ps) @ drop (i + Suc n) pl"
  using assms by (simp add: take_Suc_conv_app_nth)

lemma update_loop_ok:
  fixes ubo :: "'f::{one,plus,times} GlobalUbo"
  assumes "j + length (lights_of objs) \<le> length (pointLights ubo)"
    and "int (length (pointLights ubo)) = MAX_LIGHTS"
  shows "update_loop R objs (int j) ubo =
     Inr (moved R objs, int (j + length (lights_of objs)),
          ubo\<lparr>pointLights :=
            take j (pointLights ubo) @
            map (\<lambda>obj. point_light_of (rotated R obj)) (lights_of objs) @
            drop (j + length (lights_of objs)) (pointLights ubo)\<rparr>)"
  using assms
proof (induction objs arbitrary: j ubo)
  case Nil
  then show ?case by (simp add: lights_of_Nil moved_def)
next
  case (Cons kv rest)
  show ?case
  proof (cases "pointLight (snd kv)")
    case None
    with Cons.prems have "j + length (lights_of rest) \<le> length (pointLights ubo)"
      by (simp add: lights_of_Cons)
    from Cons.IH [OF this Cons.prems(2)] None show ?thesis
      by (simp add: lights_of_Cons moved_def)
  next
    case (Some light)
    let ?obj = "rotated R (snd kv)"
    let ?pl = "pointLights ubo"
    let ?ubo = "ubo\<lparr>pointLights := list_update ?pl j (point_light_of ?obj)\<rparr>"
    from Some Cons.prems have j: "j < length ?pl"
      and rest: "Suc j + length (lights_of rest) \<le> length (pointLights ?ubo)"
      and len: "int (length (pointLights ?ubo)) = MAX_LIGHTS"
      by (simp_all add: lights_of_Cons)
    from j Cons.prems(2) have lt: "int j < MAX_LIGHTS" by simp
    have light': "pointLight ?obj = Some light"
      using Some by (simp add: rotated_def)
    have IH: "update_loop R rest (int j + 1) ?ubo =
        Inr (moved R rest, int (Suc j + length (lights_of rest)),
             ?ubo\<lparr>pointLights :=
               take (Suc j) (pointLights ?ubo) @
               map (\<lambda>obj. point_light_of (rotated R obj)) (lights_of rest) @
               drop (Suc j + length (lights_of rest)) (pointLights ?ubo)\<rparr>)"
      using Cons.IH [OF rest len] by (simp add: add.commute)
    have step: "update_loop R (kv # rest) (int j) ubo =
        (case update_loop R rest (int j + 1) ?ubo of
           Inl e \<Rightarrow> Inl e
         | Inr (rest', r) \<Rightarrow> Inr ((fst kv, ?obj) # rest', r))"
      using Some lt write_light [OF light' j]
      by (simp add: Let_def rotated_def [symmetric] point_light_of_def)
    show ?thesis
      unfolding step IH
      using Some j splice_step [OF j, of "point_light_of ?obj" _ "length (lights_of rest)"]
      by (simp add: lights_of_Cons moved_def)
  qed
qed

lemma update_loop_overflow:
  fixes ubo :: "'f::{one,plus,times} GlobalUbo"
  assumes "int j \<le> MAX_LIGHTS" and "MAX_LIGHTS < int (j + length (lights_of objs))"
  shows "update_loop R objs (int j) ubo = Inl AssertionFailed"
  using assms
proof (induction objs arbitrary: j ubo)
  case Nil
  then show ?case by (simp add: lights_of_Nil)
next
  case (Cons kv rest)
  show ?case
  proof (cases "pointLight (snd kv)")
    case None
    with Cons.prems have "MAX_LIGHTS < int (j + length (lights_of rest))"
      by (simp add: lights_of_Cons)
    from Cons.IH [OF Cons.prems(1) this] None show ?thesis by simp
  next
    case (Some light)
    show ?thesis
    proof (cases "int j < MAX_LIGHTS")
      case False
      with Some show ?thesis by simp
    next
      case True
      then have a: "int (Suc j) \<le> MAX_LIGHTS" by simp
      from Some Cons.prems have b: "MAX_LIGHTS < int (Suc j + length (lights_of rest))"
        by (simp add: lights_of_Cons)
      have "update_loop R rest (int j + 1) u = Inl AssertionFailed" for u :: "'f GlobalUbo"
        using Cons.IH [OF a b, of u] by (simp add: add.commute)
      with Some True show ?thesis by (simp add: Let_def)
    qed
  qed
qed

lemma update_ok:
  fixes frameInfo :: "'f::{zero,one,plus,times,inverse,uminus} FrameInfo"
  assumes "wf_ubo ubo" and "int (length (lights_of (gameObjects frameInfo))) \<le> MAX_LIGHTS"
  shows "update glm_rotate frameInfo ubo =
     Inr (frameInfo\<lparr>gameObjects := moved (rotateLight_of glm_rotate frameInfo) (gameObjects frameInfo)\<rparr>,
          ubo\<lparr>pointLights :=
                 map (\<lambda>obj. point_light_of (rotated (rotateLight_of glm_rotate frameInfo) obj))
                   (lights_of (gameObjects frameInfo)) @
                 drop (length (lights_of (gameObjects frameInfo))) (pointLights ubo),
               numLights := int (length (lights_of (gameObjects frameInfo)))\<rparr>)"
proof -
  let ?R = "rotateLight_of glm_rotate frameInfo"
  from assms have a: "0 + length (lights_of (gameObjects frameInfo)) \<le> length (pointLights ubo)"
    and b: "int (length (pointLights ubo)) = MAX_LIGHTS"
    by (simp_all add: wf_ubo_def)
  have "update_loop ?R (gameObjects frameInfo) 0 ubo =
      Inr (moved ?R (gameObjects frameInfo), int (0 + length (lights_of (gameObjects frameInfo))),
           ubo\<lparr>pointLights :=
             take 0 (pointLights ubo) @
             map (\<lambda>obj. point_light_of (rotated ?R obj)) (lights_of (gameObjects frameInfo)) @
             drop (0 + length (lights_of (gameObjects frameInfo))) (pointLights ubo)\<rparr>)"
    using update_loop_ok [OF a b, of ?R] by simp
  then show ?thesis
    by (simp add: update_def rotateLight_of_def Let_def)
qed

lemma update_overflow:
  fixes frameInfo :: "'f::{zero,one,plus,times,inverse,uminus} FrameInfo"
  assumes "MAX_LIGHTS < int (length (lights_of (gameObjects frameInfo)))"
  shows "update glm_rotate frameInfo ubo = Inl AssertionFailed"
proof -
  have a: "int 0 \<le> MAX_LIGHTS" by (simp add: MAX_LIGHTS_def)
  from assms have b: "MAX_LIGHTS < int (0 + length (lights_of (gameObjects frameInfo)))" by simp
  have "update_loop R (gameObjects frameInfo) 0 ubo = Inl AssertionFailed" for R
    using update_loop_overflow [OF a b, of R ubo] by simp
  then show ?thesis
    by (simp add: update_def Let_def)
qed

text \<open>
  C6. With the assertion checked, the update pass never writes more than \<open>MAX_LIGHTS\<close>
  (100) lights: when the frame has at most 100 lights the assertion does not fail, the
  pass returns, and the light visited as the \<open>j\<close>-th is written at the index \<open>j\<close>, which
  is below 100, the rest of the array being left as it was; when the frame has more than
  100 lights the assertion fails, and that ends the pass. So whenever the pass returns,
  the number of lights it has written is at most 100.
\<close>

theorem update_light_cap:
  fixes frameInfo :: "'f::{zero,one,plus,times,inverse,uminus} FrameInfo"
    and glm_rotate :: "'f mat4 \<Rightarrow> 'f \<Rightarrow> 'f vec3 \<Rightarrow> 'f mat4"
  defines "ls \<equiv> lights_of (gameObjects frameInfo)"
  defines "R \<equiv> rotateLight_of glm_rotate frameInfo"
  assumes wf: "wf_ubo ubo"
  shows "(int (length ls) \<le> MAX_LIGHTS \<longrightarrow>
           (\<exists>frameInfo' ubo'.
              update glm_rotate frameInfo ubo = Inr (frameInfo', ubo') \<and>
              numLights ubo' = int (length ls) \<and> wf_ubo ubo' \<and>
              (\<forall>j < length ls. int j < MAX_LIGHTS \<and>
                 pointLights ubo' ! j = point_light_of (rotated R (ls ! j))) \<and>
              drop (length ls) (pointLights ubo') = drop (length ls) (pointLights ubo)))
       \<and> (MAX_LIGHTS < int (length ls) \<longrightarrow> update glm_rotate frameInfo ubo = Inl AssertionFailed)
       \<and> (\<forall>frameInfo' ubo'. update glm_rotate frameInfo ubo = Inr (frameInfo', ubo') \<longrightarrow>
             0 \<le> numLights ubo' \<and> numLights ubo' \<le> MAX_LIGHTS)"
proof (intro conjI impI allI)
  assume le: "int (length ls) \<le> MAX_LIGHTS"
  let ?new = "map (\<lambda>obj. point_light_of (rotated R obj)) ls"
  let ?ubo = "ubo\<lparr>pointLights := ?new @ drop (length ls) (pointLights ubo),
                   numLights := int (length ls)\<rparr>"
  have u: "update glm_rotate frameInfo ubo =
      Inr (frameInfo\<lparr>gameObjects := moved R (gameObjects frameInfo)\<rparr>, ?ubo)"
    unfolding ls_def R_def using wf le [unfolded ls_def] by (rule update_ok)
  from wf le have len: "length ls \<le> length (pointLights ubo)"
    by (simp add: wf_ubo_def)
  have "wf_ubo ?ubo"
    using wf len by (simp add: wf_ubo_def)
  moreover have "int j < MAX_LIGHTS \<and> pointLights ?ubo ! j = point_light_of (rotated R (ls ! j))"
    if "j < length ls" for j
    using that le by (simp add: nth_append)
  ultimately show "\<exists>frameInfo' ubo'.
      update glm_rotate frameInfo ubo = Inr (frameInfo', ubo') \<and>
      numLights ubo' = int (length ls) \<and> wf_ubo ubo' \<and>
      (\<forall>j < length ls. int j < MAX_LIGHTS \<and>
         pointLights ubo' ! j = point_light_of (rotated R (ls ! j))) \<and>
      drop (length ls) (pointLights ubo') = drop (length ls) (pointLights ubo)"
    using u by (intro exI [of _ "frameInfo\<lparr>gameObjects := moved R (gameObjects frameInfo)\<rparr>"]
      exI [of _ ?ubo]) simp
next
  assume "MAX_LIGHTS < int (length ls)"
  then show "update glm_rotate frameInfo ubo = Inl AssertionFailed"
    unfolding ls_def by (rule update_overflow)
next
  fix frameInfo' ubo'
  assume r: "update glm_rotate frameInfo ubo = Inr (frameInfo', ubo')"
  have le: "int (length ls) \<le> MAX_LIGHTS"
  proof (rule ccontr)
    assume "\<not> int (length ls) \<le> MAX_LIGHTS"
    then have "update glm_rotate frameInfo ubo = Inl AssertionFailed"
      unfolding ls_def by (intro update_overflow) simp
    with r show False by simp
  qed
  from update_ok [OF wf le [unfolded ls_def], of glm_rotate] r
  have "numLights ubo' = int (length ls)"
    by (auto simp: ls_def)
  with le show "0 \<le> numLights ubo'" and "numLights ubo' \<le> MAX_LIGHTS" by simp_all
qed

theorem update_light_cap_witness:
  "wf_ubo ubo0 \<and>
   int (length (lights_of (gameObjects (frame_of three_lights)))) = 3 \<and>
   3 \<le> MAX_LIGHTS \<and>
   (\<exists>frameInfo' ubo'.
      update half_turn (frame_of three_lights) ubo0 = Inr (frameInfo', ubo') \<and> numLights ubo' = 3) \<and>
   MAX_LIGHTS < int (length (lights_of (gameObjects (frame_of (many_lights 101))))) \<and>
   update half_turn (frame_of (many_lights 101)) ubo0 = Inl AssertionFailed"
proof -
  have wf: "wf_ubo ubo0" by code_simp
  have three: "int (length (lights_of (gameObjects (frame_of three_lights)))) = 3" by code_simp
  have cap: "3 \<le> MAX_LIGHTS" by (simp add: MAX_LIGHTS_def)
  have many: "MAX_LIGHTS < int (length (lights_of (gameObjects (frame_of (many_lights 101)))))"
    by code_simp
  from update_light_cap [OF wf, of "frame_of three_lights" half_turn] three cap
  have "\<exists>frameInfo' ubo'.
      update half_turn (frame_of three_lights) ubo0 = Inr (frameInfo', ubo') \<and> numLights ubo' = 3"
    by auto
  moreover from update_light_cap [OF wf, of "frame_of (many_lights 101)" half_turn] many
  have "update half_turn (frame_of (many_lights 101)) ubo0 = Inl AssertionFailed"
    by simp
  ultimately show ?thesis
    using wf three cap many by simp
qed

lemma render_frame:
  "render frameInfo = Inr frameInfo' \<Longrightarrow>
     frameInfo' = frameInfo\<lparr>commandBuffer := commandBuffer frameInfo'\<rparr>"
  by (auto simp: render_def Let_def split: sum.splits)

text \<open>
  C7, as the code has it. The rotation of the lights and the writes into the capped
  array are the update pass, which visits the lights in the order of the map and records
  no command. The resolution of the draw order and the emission of the records are
  another pass, the render pass, which changes no game object and has no access to the
  array of lights.
\<close>

theorem update_and_render_passes:
  fixes frameInfo :: "'f::{zero,one,plus,minus,times,inverse,uminus,linorder} FrameInfo"
    and glm_rotate :: "'f mat4 \<Rightarrow> 'f \<Rightarrow> 'f vec3 \<Rightarrow> 'f mat4"
  defines "ls \<equiv> lights_of (gameObjects frameInfo)"
  defines "R \<equiv> rotateLight_of glm_rotate frameInfo"
  assumes wf: "wf_ubo ubo"
  shows "(\<forall>frameInfo' ubo'. update glm_rotate frameInfo ubo = Inr (frameInfo', ubo') \<longrightarrow>
            frameInfo' = frameInfo\<lparr>gameObjects := moved R (gameObjects frameInfo)\<rparr> \<and>
            commandBuffer frameInfo' = commandBuffer frameInfo \<and>
            ubo' = ubo\<lparr>pointLights :=
                         map (\<lambda>obj. point_light_of (rotated R obj)) ls @
                         drop (length ls) (pointLights ubo),
                       numLights := int (length ls)\<rparr>)
       \<and> (\<forall>frameInfo'. render frameInfo = Inr frameInfo' \<longrightarrow>
             gameObjects frameInfo' = gameObjects frameInfo \<and>
             frameInfo' = frameInfo\<lparr>commandBuffer := commandBuffer frameInfo'\<rparr>)"
proof (intro conjI allI impI)
  fix frameInfo' ubo'
  assume r: "update glm_rotate frameInfo ubo = Inr (frameInfo', ubo')"
  have le: "int (length ls) \<le> MAX_LIGHTS"
  proof (rule ccontr)
    assume "\<not> int (length ls) \<le> MAX_LIGHTS"
    then have "update glm_rotate frameInfo ubo = Inl AssertionFailed"
      unfolding ls_def by (intro update_overflow) simp
    with r show False by simp
  qed
  from update_ok [OF wf le [unfolded ls_def], of glm_rotate] r
  show "frameInfo' = frameInfo\<lparr>gameObjects := moved R (gameObjects frameInfo)\<rparr>"
    and "commandBuffer frameInfo' = commandBuffer frameInfo"
    and "ubo' = ubo\<lparr>pointLights :=
                      map (\<lambda>obj. point_light_of (rotated R obj)) ls @
                      drop (length ls) (pointLights ubo),
                    numLights := int (length ls)\<rparr>"
    by (auto simp: ls_def R_def)
next
  fix frameInfo'
  assume r: "render frameInfo = Inr frameInfo'"
  then show f: "frameInfo' = frameInfo\<lparr>commandBuffer := commandBuffer frameInfo'\<rparr>"
    by (rule render_frame)
  have "gameObjects (frameInfo\<lparr>commandBuffer := commandBuffer frameInfo'\<rparr>) = gameObjects frameInfo"
    by simp
  with f show "gameObjects frameInfo' = gameObjects frameInfo" by simp
qed

theorem update_and_render_passes_witness:
  "wf_ubo ubo0 \<and>
   update half_turn (frame_of three_lights) ubo0 =
     Inr ((frame_of three_lights)\<lparr>gameObjects := three_lights_moved\<rparr>,
          ubo0\<lparr>pointLights :=
                 map point_light_of (lights_of three_lights_moved) @
                 drop 3 (pointLights ubo0),
               numLights := 3\<rparr>) \<and>
   render (frame_of three_lights) =
     Inr ((frame_of three_lights)\<lparr>commandBuffer :=
       [BindPipeline, BindDescriptorSets 0] @
       concat (map draw_commands
         [light_obj 3 (Vec3 0 0 3) (3 / 10), light_obj 0 (Vec3 0 2 0) (1 / 10),
          light_obj 2 (Vec3 1 0 0) (2 / 10)])\<rparr>)"
proof -
  have wf: "wf_ubo ubo0" by code_simp
  have u: "update half_turn (frame_of three_lights) ubo0 =
     Inr ((frame_of three_lights)\<lparr>gameObjects := three_lights_moved\<rparr>,
          ubo0\<lparr>pointLights :=
                 map point_light_of (lights_of three_lights_moved) @
                 drop 3 (pointLights ubo0),
               numLights := 3\<rparr>)"
    by code_simp
  have r: "render (frame_of three_lights) =
     Inr ((frame_of three_lights)\<lparr>commandBuffer :=
       [BindPipeline, BindDescriptorSets 0] @
       concat (map draw_commands
         [light_obj 3 (Vec3 0 0 3) (3 / 10), light_obj 0 (Vec3 0 2 0) (1 / 10),
          light_obj 2 (Vec3 1 0 0) (2 / 10)])\<rparr>)"
    by code_simp
  note t = update_and_render_passes [OF wf, of half_turn "frame_of three_lights"]
  from t u have "(frame_of three_lights)\<lparr>gameObjects := three_lights_moved\<rparr> =
      (frame_of three_lights)\<lparr>gameObjects :=
        moved (rotateLight_of half_turn (frame_of three_lights)) (gameObjects (frame_of three_lights))\<rparr>"
    by blast
  with wf u r show ?thesis by simp
qed

text \<open>
  C7, as the claim states it, fails. On the frame of the three lights, the render pass
  emits the three records and leaves every light where it was, and the update pass, with
  the half turn for the rotation, moves the three lights and writes them into the array,
  in the order of the map and not in the draw order, and records no command.
\<close>

theorem render_does_not_move_lights:
  "render (frame_of three_lights) =
     Inr ((frame_of three_lights)\<lparr>commandBuffer :=
       [BindPipeline, BindDescriptorSets 0,
        PushConstants (shader_record (light_obj 3 (Vec3 0 0 3) (3 / 10))), Draw 6 1 0 0,
        PushConstants (shader_record (light_obj 0 (Vec3 0 2 0) (1 / 10))), Draw 6 1 0 0,
        PushConstants (shader_record (light_obj 2 (Vec3 1 0 0) (2 / 10))), Draw 6 1 0 0]\<rparr>) \<and>
   update half_turn (frame_of three_lights) ubo0 =
     Inr ((frame_of three_lights)\<lparr>gameObjects :=
            [(0, light_obj 0 (Vec3 (8 / 5) (6 / 5) 0) (1 / 10)), (1, plain_obj 1 (Vec3 5 5 5)),
             (2, light_obj 2 (Vec3 (- 3 / 5) (4 / 5) 0) (2 / 10)),
             (3, light_obj 3 (Vec3 0 0 (- 3)) (3 / 10))]\<rparr>,
          ubo0\<lparr>pointLights :=
                 [\<lparr>pl_position = Vec4 (8 / 5) (6 / 5) 0 1, pl_color = Vec4 1 (1 / 2) 0 10\<rparr>,
                  \<lparr>pl_position = Vec4 (- 3 / 5) (4 / 5) 0 1, pl_color = Vec4 1 (1 / 2) 0 10\<rparr>,
                  \<lparr>pl_position = Vec4 0 0 (- 3) 1, pl_color = Vec4 1 (1 / 2) 0 10\<rparr>] @
                 replicate 97 \<lparr>pl_position = Vec4 0 0 0 0, pl_color = Vec4 0 0 0 0\<rparr>,
               numLights := 3\<rparr>) \<and>
   gameObjects (frame_of three_lights) =
     [(0, light_obj 0 (Vec3 0 2 0) (1 / 10)), (1, plain_obj 1 (Vec3 5 5 5)),
      (2, light_obj 2 (Vec3 1 0 0) (2 / 10)), (3, light_obj 3 (Vec3 0 0 3) (3 / 10))] \<and>
   commandBuffer (frame_of three_lights) = []"
  by code_simp

end
